theory Spec2Isabelle
  imports Main
begin

section \<open>Revision management (reversion/revisions.py)\<close>

subsection \<open>Errors and action flags\<close>

text \<open>
  Every exception the modelled code can raise is a constructor of \<open>error\<close>.
  \<open>RevisionManagementError\<close> and \<open>RegistrationError\<close> are the library's own
  (reversion.errors); the others are Python's built-in exceptions.
\<close>

datatype error =
    RevisionManagementError
  | RegistrationError
  | NameError
  | ValueError
  | AssertionError
  | AttributeError
  | IndexError
  | FieldDoesNotExist
  | ObjectDoesNotExist
  | MultipleObjectsReturned
  | DeserializationError

text \<open>
  The action flags are imported from django.contrib.admin.models, where they are the
  integers 1, 2 and 3. A fresh \<open>ReversionMeta\<close> carries the action 0.
\<close>

definition ADDITION :: nat where "ADDITION = 1"
definition CHANGE :: nat where "CHANGE = 2"
definition DELETION :: nat where "DELETION = 3"

subsection \<open>Registry, model instances, the persisted tables\<close>

text \<open>
  \<open>RegistrationInfo\<close>: the four slots of the class (\<open>fields\<close> is written
  \<open>reg_fields\<close> here).
\<close>

record registration_info =
  reg_fields :: "string list"
  file_fields :: "string list"
  follow :: "string list"
  format :: string

text \<open>
  A model instance as far as revisions.py reads it: its class, its primary key
  (\<open>None\<close> before the first save), whether the class is a proxy
  (\<open>obj._meta.proxy\<close>), \<open>repr(obj)\<close>, and the three attributes of the
  \<open>ReversionMeta\<close> hung on it as \<open>obj._reversion\<close>. \<open>ReversionMeta.clear\<close> sets
  only \<open>action\<close> and \<open>serialized_data\<close>; \<open>repr\<close> exists once
  \<open>pre_delete_receiver\<close> has stored it, hence the option.
\<close>

record model_instance =
  obj_class :: nat
  pk :: "int option"
  proxy :: bool
  obj_repr :: string
  action :: nat
  reversion_data :: string
  reversion_repr :: "string option"

text \<open>
  The collaborators of the revision manager: its \<open>_registry\<close> dictionary, the content
  type framework (\<open>ContentType.objects.get_for_model\<close>) and the serializer
  (\<open>serializers.serialize(format, objects, fields=...)\<close>). The last two are Django's
  and are taken as parameters.
\<close>

record env =
  registry :: "nat \<rightharpoonup> registration_info"
  get_for_model :: "nat \<Rightarrow> nat"
  serialize :: "string \<Rightarrow> model_instance list \<Rightarrow> string list \<Rightarrow> string"

text \<open>
  The rows of the \<open>Revision\<close> and \<open>Version\<close> tables (reversion/models.py) and of the
  meta tables filled by \<open>add_meta\<close>. \<open>object_id\<close> holds the primary key that the code
  passes on as \<open>unicode(obj.pk)\<close>. The store assigns keys by counting rows.
\<close>

record revision =
  rev_id :: nat
  rev_user :: "string option"
  rev_comment :: string

record version =
  version_id :: nat
  revision_id :: nat
  object_id :: "int option"
  content_type :: nat
  version_format :: string
  serialized_data :: string
  object_repr :: string
  action_flag :: nat

record database =
  revisions :: "revision list"
  versions :: "version list"
  metas :: "(nat \<times> string \<times> nat) list"

definition create_revision :: "string option \<Rightarrow> string \<Rightarrow> database \<Rightarrow> nat \<times> database" where
  "create_revision u c d =
     (let r = Suc (length (revisions d))
      in (r, d\<lparr>revisions := revisions d @ [\<lparr>rev_id = r, rev_user = u, rev_comment = c\<rparr>]\<rparr>))"

definition create_version ::
  "nat \<Rightarrow> int option \<Rightarrow> nat \<Rightarrow> string \<Rightarrow> string \<Rightarrow> string \<Rightarrow> nat \<Rightarrow> database \<Rightarrow> database" where
  "create_version r oid ct fmt payload rp act d =
     d\<lparr>versions := versions d @
        [\<lparr>version_id = Suc (length (versions d)), revision_id = r, object_id = oid,
          content_type = ct, version_format = fmt, serialized_data = payload,
          object_repr = rp, action_flag = act\<rparr>]\<rparr>"

subsection \<open>Python sets of model instances\<close>

text \<open>
  \<open>RevisionState.objects\<close> and \<open>dead_objects\<close> are Python sets of model instances.
  Django compares and hashes model instances by class and primary key, so two copies
  of one row are one element. A set is a list without two such copies; its order is
  the (arbitrary) order in which Python iterates over the set.
\<close>

definition same_object :: "model_instance \<Rightarrow> model_instance \<Rightarrow> bool" where
  "same_object a b \<longleftrightarrow> obj_class a = obj_class b \<and> pk a = pk b"

definition set_contains :: "model_instance list \<Rightarrow> model_instance \<Rightarrow> bool" where
  "set_contains s x = list_ex (\<lambda>y. same_object y x) s"

definition set_add :: "model_instance list \<Rightarrow> model_instance \<Rightarrow> model_instance list" where
  "set_add s x = (if set_contains s x then s else s @ [x])"

definition set_discard :: "model_instance list \<Rightarrow> model_instance \<Rightarrow> model_instance list" where
  "set_discard s x = filter (\<lambda>y. \<not> same_object y x) s"

definition set_difference :: "model_instance list \<Rightarrow> model_instance list \<Rightarrow> model_instance list" where
  "set_difference a b = filter (\<lambda>x. \<not> set_contains b x) a"

definition set_union :: "model_instance list \<Rightarrow> model_instance list \<Rightarrow> model_instance list" where
  "set_union a b = fold (\<lambda>x acc. set_add acc x) b a"

subsection \<open>The revision state and the scope operations\<close>

record revision_state =
  objects :: "model_instance list"
  dead_objects :: "model_instance list"
  user :: "string option"
  comment :: string
  depth :: int
  is_invalid :: bool
  meta :: "(nat \<times> string) list"

text \<open>\<open>RevisionState.clear\<close>: the default state, also the state a new manager starts in.\<close>

definition clear :: revision_state where
  "clear = \<lparr>objects = [], dead_objects = [], user = None, comment = [], depth = 0,
            is_invalid = False, meta = []\<rparr>"

definition get_registration_info :: "env \<Rightarrow> nat \<Rightarrow> error + registration_info" where
  "get_registration_info e c =
     (case registry e c of None \<Rightarrow> Inl RegistrationError | Some info \<Rightarrow> Inr info)"

definition start :: "revision_state \<Rightarrow> revision_state" where
  "start s = s\<lparr>depth := depth s + 1\<rparr>"

definition is_active :: "revision_state \<Rightarrow> bool" where
  "is_active s \<longleftrightarrow> depth s > 0"

definition assert_active :: "revision_state \<Rightarrow> error + unit" where
  "assert_active s = (if \<not> is_active s then Inl RevisionManagementError else Inr ())"

subsection \<open>follow_relationships\<close>

text \<open>
  \<^verbatim>\<open>
    result_set = set()
    def _follow_relationships(obj, level = 0):
        # Prevent recursion.
        if obj in result_dict or obj.pk is None:
            return
        if inclusive or level > 0:
            result_set.add(obj)
        ...
    map(_follow_relationships, object_set)
    return result_set
  \<close>
  The first statement of the inner function reads the name \<open>result_dict\<close>. The
  enclosing function binds \<open>result_set\<close>, and no assignment, parameter, import or
  definition anywhere in revisions.py binds \<open>result_dict\<close>; it is no Python built-in
  either. The left operand of \<open>or\<close> is evaluated first, so every call of the inner
  function raises \<open>NameError\<close> before it reads \<open>obj.pk\<close>, adds to \<open>result_set\<close>,
  looks at a relationship or changes an action flag. Nothing below that line is ever
  executed, whatever \<open>max_recursion\<close>, \<open>inclusive\<close> and \<open>ancestors\<close> are.
\<close>

definition follow_relationships_visit :: "env \<Rightarrow> model_instance \<Rightarrow> nat \<Rightarrow> error + unit" where
  "follow_relationships_visit e obj level = Inl NameError"

text \<open>
  \<open>map(_follow_relationships, object_set)\<close> is eager in Python 2: it calls the inner
  function on each element in turn, and the first exception leaves the loop.
\<close>

fun follow_relationships_map :: "env \<Rightarrow> model_instance list \<Rightarrow> error + unit" where
  "follow_relationships_map e [] = Inr ()"
| "follow_relationships_map e (obj # rest) =
     (case follow_relationships_visit e obj 0 of
        Inl err \<Rightarrow> Inl err
      | Inr _ \<Rightarrow> follow_relationships_map e rest)"

definition follow_relationships ::
  "env \<Rightarrow> model_instance list \<Rightarrow> nat option \<Rightarrow> bool \<Rightarrow> bool \<Rightarrow> error + model_instance list" where
  "follow_relationships e object_set max_recursion inclusive ancestors =
     (case follow_relationships_map e object_set of
        Inl err \<Rightarrow> Inl err
      | Inr _ \<Rightarrow> Inr [])"

subsection \<open>add and the other operations inside a scope\<close>

definition add :: "env \<Rightarrow> revision_state \<Rightarrow> model_instance \<Rightarrow> error + revision_state" where
  "add e s obj =
     (case assert_active s of
        Inl err \<Rightarrow> Inl err
      | Inr _ \<Rightarrow>
          if action obj = DELETION then
            (case follow_relationships e [obj] (Some 1) False False of
               Inl err \<Rightarrow> Inl err
             | Inr neighbours \<Rightarrow>
                 let dead = set_add (dead_objects s) obj;
                     live = set_union (objects s) (set_difference neighbours dead)
                 in Inr (s\<lparr>dead_objects := dead, objects := set_discard live obj\<rparr>))
          else Inr (s\<lparr>objects := set_add (objects s) obj\<rparr>))"

definition set_user :: "revision_state \<Rightarrow> string option \<Rightarrow> error + revision_state" where
  "set_user s u =
     (case assert_active s of Inl err \<Rightarrow> Inl err | Inr _ \<Rightarrow> Inr (s\<lparr>user := u\<rparr>))"

definition set_comment :: "revision_state \<Rightarrow> string \<Rightarrow> error + revision_state" where
  "set_comment s c =
     (case assert_active s of Inl err \<Rightarrow> Inl err | Inr _ \<Rightarrow> Inr (s\<lparr>comment := c\<rparr>))"

definition add_meta :: "revision_state \<Rightarrow> nat \<Rightarrow> string \<Rightarrow> error + revision_state" where
  "add_meta s c kwargs =
     (case assert_active s of
        Inl err \<Rightarrow> Inl err
      | Inr _ \<Rightarrow> Inr (s\<lparr>meta := meta s @ [(c, kwargs)]\<rparr>))"

definition invalidate :: "revision_state \<Rightarrow> error + revision_state" where
  "invalidate s =
     (case assert_active s of Inl err \<Rightarrow> Inl err | Inr _ \<Rightarrow> Inr (s\<lparr>is_invalid := True\<rparr>))"

subsection \<open>end: the commit\<close>

text \<open>
  The body of the first loop of \<open>end\<close> (one object of the reconciled set). A proxy
  instance is skipped. Otherwise the registration is looked up, which may raise; a
  \<open>DELETION\<close> action raises \<open>ValueError\<close>; any other object has its ancestors
  followed and serialized and a \<open>Version\<close> row created.
\<close>

definition save_live_version ::
  "env \<Rightarrow> nat \<Rightarrow> model_instance \<Rightarrow> database \<Rightarrow> error option \<times> database" where
  "save_live_version e rid obj d =
     (if proxy obj then (None, d)
      else
        (case get_registration_info e (obj_class obj) of
           Inl err \<Rightarrow> (Some err, d)
         | Inr info \<Rightarrow>
             if action obj = DELETION then (Some ValueError, d)
             else
               (case follow_relationships e [obj] None True True of
                  Inl err \<Rightarrow> (Some err, d)
                | Inr ancestors_and_self \<Rightarrow>
                    (None,
                     create_version rid (pk obj) (get_for_model e (obj_class obj)) (format info)
                       (serialize e (format info) ancestors_and_self (reg_fields info))
                       (obj_repr obj) (action obj) d))))"

fun save_live_versions ::
  "env \<Rightarrow> nat \<Rightarrow> model_instance list \<Rightarrow> database \<Rightarrow> error option \<times> database" where
  "save_live_versions e rid [] d = (None, d)"
| "save_live_versions e rid (obj # rest) d =
     (case save_live_version e rid obj d of
        (Some err, d') \<Rightarrow> (Some err, d')
      | (None, d') \<Rightarrow> save_live_versions e rid rest d')"

text \<open>
  The body of the second loop (one dead object): the assertion on the action, the
  registration lookup, then a \<open>Version\<close> row built from the two values stored on
  \<open>obj._reversion\<close>. Reading \<open>obj._reversion.repr\<close> raises \<open>AttributeError\<close> when
  it was never stored.
\<close>

definition save_dead_version ::
  "env \<Rightarrow> nat \<Rightarrow> model_instance \<Rightarrow> database \<Rightarrow> error option \<times> database" where
  "save_dead_version e rid obj d =
     (if action obj \<noteq> DELETION then (Some AssertionError, d)
      else
        (case get_registration_info e (obj_class obj) of
           Inl err \<Rightarrow> (Some err, d)
         | Inr info \<Rightarrow>
             (case reversion_repr obj of
                None \<Rightarrow> (Some AttributeError, d)
              | Some original_repr \<Rightarrow>
                  (None,
                   create_version rid (pk obj) (get_for_model e (obj_class obj)) (format info)
                     (reversion_data obj) original_repr (action obj) d))))"

fun save_dead_versions ::
  "env \<Rightarrow> nat \<Rightarrow> model_instance list \<Rightarrow> database \<Rightarrow> error option \<times> database" where
  "save_dead_versions e rid [] d = (None, d)"
| "save_dead_versions e rid (obj # rest) d =
     (case save_dead_version e rid obj d of
        (Some err, d') \<Rightarrow> (Some err, d')
      | (None, d') \<Rightarrow> save_dead_versions e rid rest d')"

definition save_meta :: "nat \<Rightarrow> (nat \<times> string) list \<Rightarrow> database \<Rightarrow> database" where
  "save_meta rid ms d = d\<lparr>metas := metas d @ map (\<lambda>(c, kwargs). (c, kwargs, rid)) ms\<rparr>"

text \<open>
  The three loops of \<open>end\<close>, from the reconciled set on. An exception leaves at once;
  the rows created before it stay, since \<open>end\<close> has no handler that removes them.
\<close>

definition save_versions ::
  "env \<Rightarrow> nat \<Rightarrow> revision_state \<Rightarrow> model_instance list \<Rightarrow> database \<Rightarrow>
   error option \<times> database" where
  "save_versions e rid s revision_set d =
     (case save_live_versions e rid revision_set d of
        (Some err, d1) \<Rightarrow> (Some err, d1)
      | (None, d1) \<Rightarrow>
          (case save_dead_versions e rid (dead_objects s) d1 of
             (Some err, d2) \<Rightarrow> (Some err, d2)
           | (None, d2) \<Rightarrow> (None, save_meta rid (meta s) d2)))"

text \<open>
  The guarded block inside \<open>try\<close>: the \<open>Revision\<close> row is created first, then the
  relationships of the live objects are followed, the result is reconciled with the
  objects handed in, and the rows are written.
\<close>

definition commit :: "env \<Rightarrow> revision_state \<Rightarrow> database \<Rightarrow> error option \<times> database" where
  "commit e s d =
     (let models = objects s;
          (rid, d0) = create_revision (user s) (comment s) d
      in case follow_relationships e (objects s) None True False of
           Inl err \<Rightarrow> (Some err, d0)
         | Inr revision_set \<Rightarrow>
             let diff = set_difference revision_set models
             in save_versions e rid s (set_union models diff) d0)"

text \<open>
  \<open>end\<close> (the name is an Isabelle keyword): the result is the exception raised, if
  any, the state left behind and the tables left behind. \<open>models -= dead_models\<close>
  updates \<open>self._state.objects\<close> in place; \<open>finally\<close> clears the state on every way
  out of the block.
\<close>

definition end_revision ::
  "env \<Rightarrow> revision_state \<Rightarrow> database \<Rightarrow> error option \<times> revision_state \<times> database" where
  "end_revision e s d =
     (case assert_active s of
        Inl err \<Rightarrow> (Some err, s, d)
      | Inr _ \<Rightarrow>
          let s1 = s\<lparr>depth := depth s - 1\<rparr>
          in if depth s1 = 0 then
               let dead_models = dead_objects s1;
                   models = set_difference (objects s1) dead_models;
                   s2 = s1\<lparr>objects := models\<rparr>;
                   (r, d') = (if (dead_models \<noteq> [] \<or> models \<noteq> []) \<and> \<not> is_invalid s2
                              then commit e s2 d else (None, d))
               in (r, clear, d')
             else (None, s1, d))"

subsection \<open>pre_delete_receiver\<close>

text \<open>
  The class defines \<open>pre_delete_receiver\<close> twice; the second definition (the one that
  freezes the instance) replaces the first. \<open>copy.copy\<close> is shallow, so the copy and
  the instance share one \<open>_reversion\<close>: what is stored on the copy's is stored on the
  instance's. The result is the exception, the instance as the receiver leaves it,
  and the state.
\<close>

definition pre_delete_receiver ::
  "env \<Rightarrow> revision_state \<Rightarrow> model_instance \<Rightarrow>
   error option \<times> model_instance \<times> revision_state" where
  "pre_delete_receiver e s inst =
     (let inst1 = inst\<lparr>action := DELETION\<rparr>
      in case follow_relationships e [inst1] None True True of
           Inl err \<Rightarrow> (Some err, inst1, s)
         | Inr ancestors_and_self \<Rightarrow>
             (case get_registration_info e (obj_class inst1) of
                Inl err \<Rightarrow> (Some err, inst1, s)
              | Inr info \<Rightarrow>
                  let tmp = inst1\<lparr>reversion_data :=
                                     serialize e (format info) ancestors_and_self (reg_fields info),
                                   reversion_repr := Some (obj_repr inst1)\<rparr>
                  in if is_active s then
                       (case add e s tmp of
                          Inl err \<Rightarrow> (Some err, tmp, s)
                        | Inr s' \<Rightarrow> (None, tmp, s'))
                     else (None, tmp, s)))"

subsection \<open>Sequences of calls\<close>

text \<open>
  The calls a client can make on the manager. A call that raises hands the exception
  to its caller, who may go on calling; \<open>run\<close> therefore continues after an error
  with the state and the tables as the failed call left them.
\<close>

datatype call =
    Start
  | End
  | Add model_instance
  | SetUser "string option"
  | SetComment string
  | AddMeta nat string
  | Invalidate

definition raised ::
  "revision_state \<Rightarrow> database \<Rightarrow> error + revision_state \<Rightarrow>
   error option \<times> revision_state \<times> database" where
  "raised s d r = (case r of Inl err \<Rightarrow> (Some err, s, d) | Inr s' \<Rightarrow> (None, s', d))"

fun step ::
  "env \<Rightarrow> call \<Rightarrow> revision_state \<Rightarrow> database \<Rightarrow> error option \<times> revision_state \<times> database" where
  "step e Start s d = (None, start s, d)"
| "step e End s d = end_revision e s d"
| "step e (Add obj) s d = raised s d (add e s obj)"
| "step e (SetUser u) s d = raised s d (set_user s u)"
| "step e (SetComment c) s d = raised s d (set_comment s c)"
| "step e (AddMeta c kwargs) s d = raised s d (add_meta s c kwargs)"
| "step e Invalidate s d = raised s d (invalidate s)"

fun run :: "env \<Rightarrow> call list \<Rightarrow> revision_state \<times> database \<Rightarrow> revision_state \<times> database" where
  "run e [] sd = sd"
| "run e (c # cs) (s, d) = run e cs (snd (step e c s d))"

section \<open>Stored versions (reversion/models.py)\<close>

subsection \<open>Python values\<close>

text \<open>
  The values an attribute of a deserialized model instance can hold, as far as the
  diff code tells them apart: \<open>None\<close>, booleans, integers, strings, datetimes (the
  epoch second that \<open>strftime('%s')\<close> prints, and the microsecond), the related
  manager that reading a many-to-many attribute gives, the \<open>QuerySet\<close> that
  \<open>model.objects.filter(id__in=...)\<close> gives (the model and the keys of its rows), and
  a model instance reached through a foreign key (model and key).
\<close>

datatype pyval =
    PNone
  | PBool bool
  | PInt int
  | PStr string
  | PDateTime int nat
  | PManager nat
  | PQuerySet nat "int list"
  | PObject nat int

text \<open>Truth value testing: \<open>if x\<close>, \<open>x or y\<close>. A \<open>QuerySet\<close> is true when it has a row.\<close>

fun py_truthy :: "pyval \<Rightarrow> bool" where
  "py_truthy PNone = False"
| "py_truthy (PBool b) = b"
| "py_truthy (PInt i) = (i \<noteq> 0)"
| "py_truthy (PStr s) = (s \<noteq> [])"
| "py_truthy (PDateTime s u) = True"
| "py_truthy (PManager m) = True"
| "py_truthy (PQuerySet m rows) = (rows \<noteq> [])"
| "py_truthy (PObject m k) = True"

text \<open>\<open>isinstance(x, int)\<close>: \<open>bool\<close> is a subclass of \<open>int\<close>.\<close>

fun py_int :: "pyval \<Rightarrow> int option" where
  "py_int (PBool b) = Some (if b then 1 else 0)"
| "py_int (PInt i) = Some i"
| "py_int v = None"

fun is_manager_or_queryset :: "pyval \<Rightarrow> bool" where
  "is_manager_or_queryset (PManager m) = True"
| "is_manager_or_queryset (PQuerySet m rows) = True"
| "is_manager_or_queryset v = False"

text \<open>
  \<open>x == y\<close>. Numbers compare by value across \<open>bool\<close> and \<open>int\<close>; values of different
  kinds are unequal. Managers and \<open>QuerySet\<close>s define no \<open>__eq__\<close>, so Python compares
  their identities: two of them made by two calls are never equal, whatever rows they
  hold.
\<close>

definition py_eq :: "pyval \<Rightarrow> pyval \<Rightarrow> bool" where
  "py_eq a b =
     (if is_manager_or_queryset a \<or> is_manager_or_queryset b then False
      else
        (case (py_int a, py_int b) of
           (Some x, Some y) \<Rightarrow> x = y
         | (None, None) \<Rightarrow> a = b
         | _ \<Rightarrow> False))"

subsection \<open>Version.get_object_version\<close>

text \<open>
  One element of \<open>serializers.deserialize(format, data)\<close>: a \<open>DeserializedObject\<close>
  with its \<open>object\<close> (class, number of entries of \<open>_meta.parents\<close>, instance
  \<open>__dict__\<close>) and its \<open>m2m_data\<close>.
\<close>

record deserialized_object =
  dobj_class :: nat
  n_parents :: nat
  object_dict :: "string \<rightharpoonup> pyval"
  m2m_data :: "string \<rightharpoonup> int list"

text \<open>A model field as the diff reads it (\<open>rel_to\<close> is \<open>field.rel.to\<close>, when \<open>field.rel\<close> is set).\<close>

record field =
  attname :: string
  primary_key :: bool
  choices :: "(pyval \<times> string) list"
  rel_to :: "nat option"

text \<open>
  Django's side of models.py and managers.py, taken as parameters: the deserializer
  (with the \<open>eval\<close> of a python-format payload before it), \<open>_meta.get_field\<close>, the
  attributes an instance has through its class rather than its \<open>__dict__\<close> (related
  managers, foreign-key descriptors, which may raise), \<open>issubclass(model, User)\<close>, and
  which keys of a model exist in the live store.
\<close>

record orm =
  deserialize :: "string \<Rightarrow> string \<Rightarrow> error + deserialized_object list"
  get_field :: "nat \<Rightarrow> string \<rightharpoonup> field"
  class_getattr :: "deserialized_object \<Rightarrow> string \<rightharpoonup> error + pyval"
  is_user_model :: "nat \<Rightarrow> bool"
  stored :: "nat \<Rightarrow> int \<Rightarrow> bool"

definition is_addition :: "version \<Rightarrow> bool" where
  "is_addition v \<longleftrightarrow> action_flag v = ADDITION"

definition is_change :: "version \<Rightarrow> bool" where
  "is_change v \<longleftrightarrow> action_flag v = CHANGE"

definition is_deletion :: "version \<Rightarrow> bool" where
  "is_deletion v \<longleftrightarrow> action_flag v = DELETION"

text \<open>
  \<open>do.sort(lambda x, y: cmp(len(y...parents), len(x...parents)))\<close> sorts descending by
  the number of parents; Python's sort is stable, and so is \<open>sort_key\<close>. \<open>do[0]\<close>
  raises \<open>IndexError\<close> on an empty list. \<open>dict.update\<close> overwrites the keys both
  dictionaries have.
\<close>

definition dict_update :: "deserialized_object \<Rightarrow> deserialized_object \<Rightarrow> deserialized_object" where
  "dict_update head dobj = head\<lparr>object_dict := object_dict head ++ object_dict dobj\<rparr>"

definition get_object_version :: "orm \<Rightarrow> version \<Rightarrow> error + deserialized_object" where
  "get_object_version orm v =
     (case deserialize orm (version_format v) (serialized_data v) of
        Inl err \<Rightarrow> Inl err
      | Inr objs \<Rightarrow>
          (case sort_key (\<lambda>d. - int (n_parents d)) objs of
             [] \<Rightarrow> Inl IndexError
           | head # rest \<Rightarrow> Inr (foldl dict_update head rest)))"

section \<open>The diff engine (reversion/managers.py)\<close>

subsection \<open>Reading a field's value\<close>

text \<open>
  \<open>getattr(obj, name)\<close>: the instance \<open>__dict__\<close> first, then what the class
  provides; \<open>AttributeError\<close> when neither has the name. With a third argument
  \<open>None\<close>, that error alone is replaced by \<open>None\<close>.
\<close>

definition py_getattr :: "orm \<Rightarrow> deserialized_object \<Rightarrow> string \<Rightarrow> error + pyval" where
  "py_getattr orm obj a =
     (case object_dict obj a of
        Some v \<Rightarrow> Inr v
      | None \<Rightarrow> (case class_getattr orm obj a of Some r \<Rightarrow> r | None \<Rightarrow> Inl AttributeError))"

definition py_getattr_default :: "orm \<Rightarrow> deserialized_object \<Rightarrow> string \<Rightarrow> error + pyval" where
  "py_getattr_default orm obj a =
     (case py_getattr orm obj a of Inl AttributeError \<Rightarrow> Inr PNone | r \<Rightarrow> r)"

text \<open>
  \<open>_get_FIELD_display\<close> looks the attribute's value up in the field's choices and
  keeps the value itself when it is not among them.
\<close>

definition get_FIELD_display :: "field \<Rightarrow> pyval \<Rightarrow> pyval" where
  "get_FIELD_display f v = (case map_of (choices f) v of Some label \<Rightarrow> PStr label | None \<Rightarrow> v)"

text \<open>
  A manager or \<open>QuerySet\<close> is replaced by
  \<open>value.model.objects.filter(id__in=o.m2m_data.get(field.name, []))\<close>: the rows of
  the live store whose key is among those recorded in the snapshot.
\<close>

definition filter_m2m :: "orm \<Rightarrow> deserialized_object \<Rightarrow> string \<Rightarrow> pyval \<Rightarrow> pyval" where
  "filter_m2m orm obj name v =
     (let ids = (case m2m_data obj name of None \<Rightarrow> [] | Some ks \<Rightarrow> ks)
      in case v of
           PManager m \<Rightarrow> PQuerySet m (filter (stored orm m) ids)
         | PQuerySet m rows \<Rightarrow> PQuerySet m (filter (stored orm m) ids)
         | _ \<Rightarrow> v)"

text \<open>
  Lines 29 to 39. The handler of \<open>ObjectDoesNotExist\<close> repeats the read that raised
  it, so the exception reaches the caller all the same.
\<close>

definition new_value :: "orm \<Rightarrow> deserialized_object \<Rightarrow> string \<Rightarrow> field \<Rightarrow> error + pyval" where
  "new_value orm o1 name f =
     (case py_getattr orm o1 (attname f) of
        Inl err \<Rightarrow> Inl err
      | Inr v \<Rightarrow> Inr (filter_m2m orm o1 name (if choices f \<noteq> [] then get_FIELD_display f v else v)))"

text \<open>
  Lines 43 to 57. Without a previous version the old value is \<open>None\<close>. With one, the
  attribute is read with the default \<open>None\<close>; \<open>_get_FIELD_display\<close>, called when the
  field has choices, reads it again without a default.
\<close>

definition old_value ::
  "orm \<Rightarrow> deserialized_object option \<Rightarrow> string \<Rightarrow> field \<Rightarrow> error + pyval" where
  "old_value orm o2 name f =
     (case o2 of
        None \<Rightarrow> Inr PNone
      | Some obj \<Rightarrow>
          (case py_getattr_default orm obj (attname f) of
             Inl err \<Rightarrow> Inl err
           | Inr v \<Rightarrow>
               if choices f \<noteq> [] then
                 (case py_getattr orm obj (attname f) of
                    Inl err \<Rightarrow> Inl err
                  | Inr w \<Rightarrow> Inr (filter_m2m orm obj name (get_FIELD_display f w)))
               else Inr (filter_m2m orm obj name v)))"

subsection \<open>diff_vers\<close>

text \<open>
  \<open>isinstance(new_value, datetime) and isinstance(old_value, datetime) and
  new_value.strftime('%s') == old_value.strftime('%s')\<close>
\<close>

fun same_second :: "pyval \<Rightarrow> pyval \<Rightarrow> bool" where
  "same_second (PDateTime s1 u1) (PDateTime s2 u2) = (s1 = s2)"
| "same_second a b = False"

text \<open>
  Lines 69 to 81, for a field that is reported: a relation whose new value is an
  integer is shown as the related user object, or as the \<open>object_repr\<close> of the
  version of the related object in the same revision when exactly one exists.
\<close>

definition resolve_relation ::
  "env \<Rightarrow> orm \<Rightarrow> database \<Rightarrow> version \<Rightarrow> deserialized_object \<Rightarrow> deserialized_object option \<Rightarrow>
   string \<Rightarrow> field \<Rightarrow> pyval \<Rightarrow> pyval \<Rightarrow> error + pyval \<times> pyval" where
  "resolve_relation e orm d v1 o1 o2 name f nv ov =
     (case (rel_to f, py_int nv) of
        (Some m, Some k) \<Rightarrow>
          if is_user_model orm m then
            (case py_getattr_default orm o1 name of
               Inl err \<Rightarrow> Inl err
             | Inr nv' \<Rightarrow>
                 (case o2 of
                    None \<Rightarrow> Inr (nv', ov)
                  | Some obj \<Rightarrow>
                      (case py_getattr_default orm obj name of
                         Inl err \<Rightarrow> Inl err
                       | Inr ov' \<Rightarrow> Inr (nv', ov'))))
          else
            (case filter (\<lambda>r. revision_id r = revision_id v1 \<and>
                               content_type r = get_for_model e m \<and> object_id r = Some k)
                    (versions d) of
               [] \<Rightarrow> Inr (nv, ov)
             | [rel_v] \<Rightarrow> Inr (PStr (object_repr rel_v), ov)
             | _ \<Rightarrow> Inl MultipleObjectsReturned)
      | _ \<Rightarrow> Inr (nv, ov))"

text \<open>
  One turn of the loop over the registered fields: \<open>None\<close> when the loop goes on
  without appending, the appended triple otherwise. \<open>get_field\<close> returns the field of
  the name asked for, so \<open>field.name\<close> is that name.
\<close>

definition diff_field ::
  "env \<Rightarrow> orm \<Rightarrow> database \<Rightarrow> version \<Rightarrow> deserialized_object \<Rightarrow> deserialized_object option \<Rightarrow>
   string \<Rightarrow> error + (string \<times> pyval \<times> pyval) option" where
  "diff_field e orm d v1 o1 o2 name =
     (case get_field orm (dobj_class o1) name of
        None \<Rightarrow> Inl FieldDoesNotExist
      | Some f \<Rightarrow>
          if primary_key f then Inr None
          else
            (case new_value orm o1 name f of
               Inl err \<Rightarrow> Inl err
             | Inr nv \<Rightarrow>
                 (case old_value orm o2 name f of
                    Inl err \<Rightarrow> Inl err
                  | Inr ov \<Rightarrow>
                      if (is_change v1 \<and> (py_truthy nv \<or> py_truthy ov) \<and> \<not> py_eq nv ov) \<or>
                         (is_addition v1 \<or> is_deletion v1)
                      then
                        if same_second nv ov then Inr None
                        else
                          (case resolve_relation e orm d v1 o1 o2 name f nv ov of
                             Inl err \<Rightarrow> Inl err
                           | Inr (nv', ov') \<Rightarrow> Inr (Some (name, nv', ov')))
                      else Inr None)))"

fun diff_fields ::
  "env \<Rightarrow> orm \<Rightarrow> database \<Rightarrow> version \<Rightarrow> deserialized_object \<Rightarrow> deserialized_object option \<Rightarrow>
   string list \<Rightarrow> (string \<times> pyval \<times> pyval) list \<Rightarrow> error + (string \<times> pyval \<times> pyval) list" where
  "diff_fields e orm d v1 o1 o2 [] result = Inr result"
| "diff_fields e orm d v1 o1 o2 (name # rest) result =
     (case diff_field e orm d v1 o1 o2 name of
        Inl err \<Rightarrow> Inl err
      | Inr None \<Rightarrow> diff_fields e orm d v1 o1 o2 rest result
      | Inr (Some entry) \<Rightarrow> diff_fields e orm d v1 o1 o2 rest (result @ [entry]))"

text \<open>
  Lines 15 to 19: the previous object, when a previous version is given.
\<close>

definition previous_object :: "orm \<Rightarrow> version option \<Rightarrow> error + deserialized_object option" where
  "previous_object orm v2 =
     (case v2 of
        None \<Rightarrow> Inr None
      | Some prev \<Rightarrow>
          (case get_object_version orm prev of Inl err \<Rightarrow> Inl err | Inr o2 \<Rightarrow> Inr (Some o2)))"

text \<open>
  \<open>diff_vers(v1, v2=None)\<close>. The registered fields are those of the class of the
  reconstructed object, taken from the shared revision manager.
\<close>

definition diff_vers ::
  "env \<Rightarrow> orm \<Rightarrow> database \<Rightarrow> version \<Rightarrow> version option \<Rightarrow>
   error + (string \<times> pyval \<times> pyval) list" where
  "diff_vers e orm d v1 v2 =
     (case get_object_version orm v1 of
        Inl err \<Rightarrow> Inl err
      | Inr o1 \<Rightarrow>
          (case get_registration_info e (dobj_class o1) of
             Inl err \<Rightarrow> Inl err
           | Inr info \<Rightarrow>
               (case previous_object orm v2 of
                  Inl err \<Rightarrow> Inl err
                | Inr o2 \<Rightarrow> diff_fields e orm d v1 o1 o2 (reg_fields info) [])))"

subsection \<open>VersionManager.diff\<close>

text \<open>
  \<open>get_action_flag_display\<close>: the label of the action among \<open>ACTIONS\<close>, the flag
  itself when it is none of the three.
\<close>

definition get_action_flag_display :: "version \<Rightarrow> pyval" where
  "get_action_flag_display v =
     (if action_flag v = ADDITION then PStr ''Add''
      else if action_flag v = CHANGE then PStr ''Change''
      else if action_flag v = DELETION then PStr ''Delete''
      else PInt (int (action_flag v)))"

text \<open>
  One entry of a revision's \<open>changes\<close> (\<open>vdiff\<close>) and one value of the \<open>revisions\<close>
  dictionary (\<open>rdiff\<close>; its \<open>revision\<close> and \<open>_date\<close> entries are the revision row,
  kept here by its key).
\<close>

record vdiff =
  vd_version :: version
  vd_type :: pyval
  vd_fields :: "(string \<times> pyval \<times> pyval) list"

record rdiff =
  rd_revision :: nat
  rd_changes :: "vdiff list"

text \<open>
  Lines 287 to 300, with \<open>rest\<close> the rows after row \<open>i\<close>: the previous version used
  for the comparison and the entry's \<open>_type\<close>. Reading \<open>versions_list[i + 1]\<close> past
  the end raises \<open>IndexError\<close>, which is caught and changes nothing.
\<close>

definition previous_version :: "version \<Rightarrow> version list \<Rightarrow> version option \<times> pyval" where
  "previous_version v rest =
     (if is_change v then
        (case rest of
           [] \<Rightarrow> (None, get_action_flag_display v)
         | prev_ver # _ \<Rightarrow>
             if object_id v \<noteq> object_id prev_ver \<or> content_type v \<noteq> content_type prev_ver
             then (None, PStr ''Add or Change'')
             else (Some prev_ver, get_action_flag_display v))
      else (None, get_action_flag_display v))"

text \<open>
  Lines 271 to 278: the entry of the revision in \<open>revisions\<close>, made on first use.
  Lines 303 and 304: an entry is appended to the revision's \<open>changes\<close> only when its
  list of fields is not empty.
\<close>

definition rdiff_for :: "(nat \<rightharpoonup> rdiff) \<Rightarrow> nat \<Rightarrow> rdiff" where
  "rdiff_for revs rid =
     (case revs rid of None \<Rightarrow> \<lparr>rd_revision = rid, rd_changes = []\<rparr> | Some r \<Rightarrow> r)"

definition append_change :: "rdiff \<Rightarrow> vdiff \<Rightarrow> rdiff" where
  "append_change entry x =
     (if vd_fields x \<noteq> [] then entry\<lparr>rd_changes := rd_changes entry @ [x]\<rparr> else entry)"

text \<open>
  The loop of \<open>diff\<close> over \<open>versions_list\<close>, the rows that the query of lines 236 to
  263 returned (ordered by object id, content type and descending key). An exception
  of \<open>diff_vers\<close> ends the loop and the call.
\<close>

fun diff_rows ::
  "env \<Rightarrow> orm \<Rightarrow> database \<Rightarrow> version list \<Rightarrow> (nat \<rightharpoonup> rdiff) \<Rightarrow> error + (nat \<rightharpoonup> rdiff)" where
  "diff_rows e orm d [] revs = Inr revs"
| "diff_rows e orm d (v # rest) revs =
     (let rid = revision_id v;
          entry = rdiff_for revs rid;
          (prev_ver, ty) = previous_version v rest
      in case diff_vers e orm d v prev_ver of
           Inl err \<Rightarrow> Inl err
         | Inr fs \<Rightarrow>
             diff_rows e orm d rest
               (revs(rid \<mapsto> append_change entry \<lparr>vd_version = v, vd_type = ty, vd_fields = fs\<rparr>)))"

definition diff :: "env \<Rightarrow> orm \<Rightarrow> database \<Rightarrow> version list \<Rightarrow> error + (nat \<rightharpoonup> rdiff)" where
  "diff e orm d versions_list = diff_rows e orm d versions_list Map.empty"

section \<open>A small installation\<close>

text \<open>
  Concrete inputs for the theorems below. Class 0 is an article with a title, a
  modification time, a nullable counter \<open>views\<close> and a many-to-many relation
  \<open>tags\<close> to class 2; it follows its
  \<open>author\<close> (class 1), who follows \<open>articles\<close> back. Classes 3 and 4 are a parent
  model and a child model that inherits from it (multi-table inheritance).
\<close>

definition example_env :: env where
  "example_env =
     \<lparr>registry =
        [0 \<mapsto> \<lparr>reg_fields = [''id'', ''title'', ''modified'', ''views'', ''tags''],
                file_fields = [],
                follow = [''author''], format = ''python''\<rparr>,
         1 \<mapsto> \<lparr>reg_fields = [''id'', ''name''], file_fields = [],
                follow = [''articles''], format = ''python''\<rparr>],
      get_for_model = (\<lambda>c. c),
      serialize = (\<lambda>fmt objs fs. ''serialized'')\<rparr>"

definition article :: model_instance where
  "article =
     \<lparr>obj_class = 0, pk = Some 1, proxy = False, obj_repr = ''Article 1'', action = CHANGE,
      reversion_data = [], reversion_repr = None\<rparr>"

definition empty_database :: database where
  "empty_database = \<lparr>revisions = [], versions = [], metas = []\<rparr>"

definition old_fragment :: deserialized_object where
  "old_fragment =
     \<lparr>dobj_class = 0, n_parents = 0,
      object_dict = [''id'' \<mapsto> PInt 1, ''title'' \<mapsto> PStr ''x'', ''modified'' \<mapsto> PDateTime 100 5,
                     ''views'' \<mapsto> PNone],
      m2m_data = [''tags'' \<mapsto> [7]]\<rparr>"

definition new_fragment :: deserialized_object where
  "new_fragment =
     \<lparr>dobj_class = 0, n_parents = 0,
      object_dict = [''id'' \<mapsto> PInt 1, ''title'' \<mapsto> PStr ''y'', ''modified'' \<mapsto> PDateTime 100 900,
                     ''views'' \<mapsto> PInt 0],
      m2m_data = [''tags'' \<mapsto> [7]]\<rparr>"

definition parent_fragment :: deserialized_object where
  "parent_fragment =
     \<lparr>dobj_class = 3, n_parents = 0,
      object_dict = [''id'' \<mapsto> PInt 1, ''name'' \<mapsto> PStr ''parent''],
      m2m_data = Map.empty\<rparr>"

definition child_fragment :: deserialized_object where
  "child_fragment =
     \<lparr>dobj_class = 4, n_parents = 1,
      object_dict = [''parent_ptr_id'' \<mapsto> PInt 1, ''name'' \<mapsto> PStr ''child''],
      m2m_data = Map.empty\<rparr>"

definition example_orm :: orm where
  "example_orm =
     \<lparr>deserialize =
        (\<lambda>fmt data.
           if data = ''old'' then Inr [old_fragment]
           else if data = ''new'' then Inr [new_fragment]
           else if data = ''composite'' then Inr [parent_fragment, child_fragment]
           else Inl DeserializationError),
      get_field =
        (\<lambda>c. if c = 0 then
                [''id'' \<mapsto> \<lparr>attname = ''id'', primary_key = True, choices = [], rel_to = None\<rparr>,
                 ''title'' \<mapsto> \<lparr>attname = ''title'', primary_key = False, choices = [], rel_to = None\<rparr>,
                 ''modified'' \<mapsto>
                   \<lparr>attname = ''modified'', primary_key = False, choices = [], rel_to = None\<rparr>,
                 ''views'' \<mapsto> \<lparr>attname = ''views'', primary_key = False, choices = [], rel_to = None\<rparr>,
                 ''tags'' \<mapsto> \<lparr>attname = ''tags'', primary_key = False, choices = [], rel_to = Some 2\<rparr>]
              else Map.empty),
      class_getattr = (\<lambda>obj a. if a = ''tags'' then Some (Inr (PManager 2)) else None),
      is_user_model = (\<lambda>m. False),
      stored = (\<lambda>m k. True)\<rparr>"

definition old_version :: version where
  "old_version =
     \<lparr>version_id = 1, revision_id = 1, object_id = Some 1, content_type = 0,
      version_format = ''python'', serialized_data = ''old'', object_repr = ''Article 1'',
      action_flag = ADDITION\<rparr>"

definition new_version :: version where
  "new_version =
     \<lparr>version_id = 2, revision_id = 2, object_id = Some 1, content_type = 0,
      version_format = ''python'', serialized_data = ''new'', object_repr = ''Article 1'',
      action_flag = CHANGE\<rparr>"

definition other_version :: version where
  "other_version =
     \<lparr>version_id = 3, revision_id = 2, object_id = Some 5, content_type = 0,
      version_format = ''python'', serialized_data = ''old'', object_repr = ''Article 5'',
      action_flag = ADDITION\<rparr>"

definition composite_version :: version where
  "composite_version =
     \<lparr>version_id = 4, revision_id = 3, object_id = Some 1, content_type = 4,
      version_format = ''python'', serialized_data = ''composite'', object_repr = ''Child 1'',
      action_flag = ADDITION\<rparr>"

definition example_history :: "nat \<rightharpoonup> rdiff" where
  "example_history =
     [2 \<mapsto>
        \<lparr>rd_revision = 2,
         rd_changes =
           [\<lparr>vd_version = new_version, vd_type = PStr ''Add or Change'',
             vd_fields = [(''title'', PStr ''y'', PNone), (''modified'', PDateTime 100 900, PNone),
                          (''tags'', PQuerySet 2 [7], PNone)]\<rparr>,
            \<lparr>vd_version = other_version, vd_type = PStr ''Add'',
             vd_fields = [(''title'', PStr ''x'', PNone), (''modified'', PDateTime 100 5, PNone),
                          (''views'', PNone, PNone), (''tags'', PQuerySet 2 [7], PNone)]\<rparr>]\<rparr>]"

section \<open>Properties of the revision manager\<close>

subsection \<open>follow_relationships\<close>

lemma follow_relationships_empty:
  "follow_relationships e [] max_recursion inclusive ancestors = Inr []"
  by (simp add: follow_relationships_def)

lemma follow_relationships_nonempty:
  "follow_relationships e (obj # rest) max_recursion inclusive ancestors = Inl NameError"
  by (simp add: follow_relationships_def follow_relationships_visit_def)

text \<open>
  Claim C3 says that \<open>follow_relationships\<close> terminates on a cyclic relationship graph
  and visits each reachable object exactly once. The code does terminate, but by
  raising: with at least one object in the set handed in, the first visit raises
  \<open>NameError\<close> and no object is put into the result, for every \<open>max_recursion\<close>,
  \<open>inclusive\<close> and \<open>ancestors\<close>.
\<close>

theorem follow_relationships_raises:
  "follow_relationships e (obj # rest) max_recursion inclusive ancestors = Inl NameError"
  by (simp add: follow_relationships_def follow_relationships_visit_def)

subsection \<open>add and pre_delete_receiver\<close>

text \<open>
  Claim C4 says that \<open>add\<close> of an object whose action is \<open>DELETION\<close> moves it to the
  dead set and adds its neighbours to the live set. In an active scope the call
  raises \<open>NameError\<close> from \<open>follow_relationships\<close> before either set is touched.
\<close>

theorem add_deletion_raises:
  "add example_env (start clear) (article\<lparr>action := DELETION\<rparr>) = Inl NameError"
  by (simp add: add_def assert_active_def is_active_def start_def clear_def
        follow_relationships_nonempty)

text \<open>
  Claim C2 says that deleting an object inside an active scope makes the commit write
  exactly one \<open>Version\<close> for it from the payload frozen before the delete. The
  receiver raises \<open>NameError\<close> when it follows the ancestors of the instance: nothing
  is frozen, the instance does not reach the dead set, and the \<open>end\<close> that closes the
  scope writes no row at all.
\<close>

theorem pre_delete_receiver_raises:
  "pre_delete_receiver example_env (start clear) article =
     (Some NameError, article\<lparr>action := DELETION\<rparr>, start clear) \<and>
   end_revision example_env (start clear) empty_database = (None, clear, empty_database)"
  by (simp add: pre_delete_receiver_def follow_relationships_nonempty Let_def
        end_revision_def assert_active_def is_active_def start_def clear_def set_difference_def)

theorem pre_delete_receiver_raises_witness:
  "fst (pre_delete_receiver example_env (start clear) article) = Some NameError \<and>
   versions (snd (snd (end_revision example_env (start clear) empty_database))) = []"
  using pre_delete_receiver_raises by (simp add: empty_database_def)

text \<open>
  What the second loop of \<open>end\<close> does for a well-formed dead object: the row carries
  the payload and the representation stored on the object, and nothing is serialized.
\<close>

lemma save_dead_version_frozen:
  "action obj = DELETION \<Longrightarrow> registry e (obj_class obj) = Some info \<Longrightarrow>
   reversion_repr obj = Some original_repr \<Longrightarrow>
   save_dead_version e rid obj d =
     (None, create_version rid (pk obj) (get_for_model e (obj_class obj)) (format info)
              (reversion_data obj) original_repr DELETION d)"
  by (simp add: save_dead_version_def get_registration_info_def)

subsection \<open>end\<close>

text \<open>
  Claim C1 says that no \<open>Revision\<close> without a \<open>Version\<close> is ever persisted. On a
  new manager, \<open>start\<close> and \<open>add\<close> of a changed article lead to a scope of depth 1
  that holds the article. The \<open>end\<close> that closes it creates the \<open>Revision\<close> row and
  then raises \<open>NameError\<close> from \<open>follow_relationships\<close>, before either loop is
  reached; \<open>finally\<close> clears the state, nothing removes the row, and the \<open>Revision\<close>
  stays persisted with no \<open>Version\<close>.
\<close>

theorem end_persists_empty_revision:
  "run example_env [Start, Add article] (clear, empty_database) =
     (clear\<lparr>depth := 1, objects := [article]\<rparr>, empty_database) \<and>
   end_revision example_env (clear\<lparr>depth := 1, objects := [article]\<rparr>) empty_database =
     (Some NameError, clear,
      \<lparr>revisions = [\<lparr>rev_id = 1, rev_user = None, rev_comment = []\<rparr>], versions = [],
        metas = []\<rparr>)"
proof -
  have "run example_env [Start, Add article] (clear, empty_database) =
          (clear\<lparr>depth := 1, objects := [article]\<rparr>, empty_database)"
    by (simp add: start_def add_def assert_active_def is_active_def raised_def clear_def
          set_add_def set_contains_def article_def CHANGE_def DELETION_def)
  moreover have
    "end_revision example_env (clear\<lparr>depth := 1, objects := [article]\<rparr>) empty_database =
       (Some NameError, clear,
        \<lparr>revisions = [\<lparr>rev_id = 1, rev_user = None, rev_comment = []\<rparr>], versions = [],
          metas = []\<rparr>)"
    by (simp add: end_revision_def assert_active_def is_active_def clear_def set_difference_def
          set_contains_def commit_def create_revision_def follow_relationships_nonempty
          empty_database_def Let_def)
  ultimately show ?thesis by (rule conjI)
qed

theorem end_persists_empty_revision_witness:
  "length (revisions (snd (snd (end_revision example_env
      (fst (run example_env [Start, Add article] (clear, empty_database)))
      empty_database)))) = 1 \<and>
   versions (snd (snd (end_revision example_env
      (fst (run example_env [Start, Add article] (clear, empty_database)))
      empty_database))) = []"
  using end_persists_empty_revision by simp

lemma save_live_version_deletion:
  "\<not> proxy obj \<Longrightarrow> action obj = DELETION \<Longrightarrow>
   save_live_version e rid obj d =
     (Some (if registry e (obj_class obj) = None then RegistrationError else ValueError), d)"
  by (auto simp: save_live_version_def get_registration_info_def split: option.splits)

lemma save_live_versions_deletion:
  "obj \<in> set revision_set \<Longrightarrow> \<not> proxy obj \<Longrightarrow> action obj = DELETION \<Longrightarrow>
   \<exists>err d'. save_live_versions e rid revision_set d = (Some err, d')"
proof (induction revision_set arbitrary: d)
  case Nil
  then show ?case by simp
next
  case (Cons x xs)
  obtain r d1 where x: "save_live_version e rid x d = (r, d1)"
    by (cases "save_live_version e rid x d") auto
  show ?case
  proof (cases r)
    case (Some err)
    with x show ?thesis by simp
  next
    case None
    with x Cons.prems have "x \<noteq> obj"
      by (auto simp: save_live_version_deletion)
    with Cons.prems have "obj \<in> set xs" by simp
    from Cons.IH [OF this Cons.prems(2,3)] x None show ?thesis by simp
  qed
qed

text \<open>
  Claim C5: when the first loop of \<open>end\<close> meets an object that is no proxy and whose
  action is \<open>DELETION\<close>, the commit ends with an exception. The loop body raises on that
  object (\<open>ValueError\<close>, or \<open>RegistrationError\<close> when its class is not registered) and
  writes no row for it; the loop over any set that holds such an object raises, and
  what the three loops leave behind is what the first one left: no row for a dead
  object and no meta row is written after it.
\<close>

theorem deletion_in_live_path_is_fatal:
  assumes "obj \<in> set revision_set" and "\<not> proxy obj" and "action obj = DELETION"
  shows "(\<exists>err d'. save_versions e rid s revision_set d = (Some err, d') \<and>
                    save_live_versions e rid revision_set d = (Some err, d')) \<and>
         save_live_version e rid obj d =
           (Some (if registry e (obj_class obj) = None then RegistrationError else ValueError), d)"
proof -
  from save_live_versions_deletion [OF assms]
  obtain err d' where live: "save_live_versions e rid revision_set d = (Some err, d')" by blast
  then have "save_versions e rid s revision_set d = (Some err, d')"
    by (simp add: save_versions_def)
  with live show ?thesis using save_live_version_deletion [OF assms(2,3)] by blast
qed

theorem deletion_in_live_path_is_fatal_witness:
  "save_versions example_env 1 clear [article\<lparr>action := DELETION\<rparr>] empty_database =
     (Some ValueError, empty_database)"
proof -
  let ?obj = "article\<lparr>action := DELETION\<rparr>"
  have mem: "?obj \<in> set [?obj]" by simp
  have no_proxy: "\<not> proxy ?obj" by (simp add: article_def)
  have deleted: "action ?obj = DELETION" by simp
  have registered: "registry example_env (obj_class ?obj) \<noteq> None"
    by (simp add: example_env_def article_def)
  from deletion_in_live_path_is_fatal [OF mem no_proxy deleted, of example_env 1 clear empty_database]
  obtain err d' where
    all: "save_versions example_env 1 clear [?obj] empty_database = (Some err, d')"
    and live: "save_live_versions example_env 1 [?obj] empty_database = (Some err, d')"
    and one: "save_live_version example_env 1 ?obj empty_database =
          (Some (if registry example_env (obj_class ?obj) = None then RegistrationError
                 else ValueError), empty_database)"
    by blast
  from one registered have
    "save_live_version example_env 1 ?obj empty_database = (Some ValueError, empty_database)"
    by simp
  with live have "err = ValueError" and "d' = empty_database" by simp_all
  with all show ?thesis by simp
qed

text \<open>
  Claim C9: at the outermost \<open>end\<close> (depth 1), a scope that was invalidated, or that
  has neither changed nor dead objects, creates no \<open>Revision\<close>, no \<open>Version\<close> and no
  meta row; the call returns without an exception and leaves the default state.
\<close>

theorem end_discards_invalid_or_empty:
  "depth s = 1 \<Longrightarrow> is_invalid s \<or> (objects s = [] \<and> dead_objects s = []) \<Longrightarrow>
   end_revision e s d = (None, clear, d)"
  by (auto simp: end_revision_def assert_active_def is_active_def set_difference_def Let_def)

theorem end_discards_invalid_or_empty_witness:
  "end_revision example_env (clear\<lparr>depth := 1, is_invalid := True, objects := [article]\<rparr>)
     empty_database = (None, clear, empty_database) \<and>
   end_revision example_env (clear\<lparr>depth := 1\<rparr>) empty_database = (None, clear, empty_database)"
  using end_discards_invalid_or_empty
          [of "clear\<lparr>depth := 1, is_invalid := True, objects := [article]\<rparr>"
              example_env empty_database]
        end_discards_invalid_or_empty [of "clear\<lparr>depth := 1\<rparr>" example_env empty_database]
  by (simp add: clear_def)

subsection \<open>The nesting depth\<close>

lemma end_revision_inactive:
  "depth s \<le> 0 \<Longrightarrow> end_revision e s d = (Some RevisionManagementError, s, d)"
  by (simp add: end_revision_def assert_active_def is_active_def)

lemma end_revision_depth:
  "0 \<le> depth s \<Longrightarrow> 0 \<le> depth (fst (snd (end_revision e s d)))"
  by (auto simp: end_revision_def assert_active_def is_active_def clear_def Let_def
           split: prod.splits)

lemma raised_depth:
  "0 \<le> depth s \<Longrightarrow> (\<And>s'. r = Inr s' \<Longrightarrow> 0 \<le> depth s') \<Longrightarrow>
   0 \<le> depth (fst (snd (raised s d r)))"
  by (cases r) (simp_all add: raised_def)

lemma add_depth: "add e s obj = Inr s' \<Longrightarrow> depth s' = depth s"
  by (auto simp: add_def Let_def split: sum.splits if_splits)

lemma step_depth:
  assumes "0 \<le> depth s"
  shows "0 \<le> depth (fst (snd (step e c s d)))"
proof (cases c)
  case Start
  with assms show ?thesis by (simp add: start_def)
next
  case End
  with assms show ?thesis by (simp add: end_revision_depth)
next
  case (Add obj)
  with assms show ?thesis by (auto intro!: raised_depth dest: add_depth)
next
  case (SetUser u)
  with assms show ?thesis
    by (auto intro!: raised_depth simp: set_user_def split: sum.splits)
next
  case (SetComment c)
  with assms show ?thesis
    by (auto intro!: raised_depth simp: set_comment_def split: sum.splits)
next
  case (AddMeta c kwargs)
  with assms show ?thesis
    by (auto intro!: raised_depth simp: add_meta_def split: sum.splits)
next
  case Invalidate
  with assms show ?thesis
    by (auto intro!: raised_depth simp: invalidate_def split: sum.splits)
qed

lemma run_depth: "0 \<le> depth s \<Longrightarrow> 0 \<le> depth (fst (run e cs (s, d)))"
proof (induction cs arbitrary: s d)
  case Nil
  then show ?case by simp
next
  case (Cons c cs)
  obtain r s' d' where st: "step e c s d = (r, s', d')"
    by (cases "step e c s d") auto
  from Cons.prems have "0 \<le> depth s'"
    using step_depth [of s e c d] st by simp
  then show ?case using Cons.IH st by simp
qed

text \<open>
  Claim C10: after any sequence of \<open>start\<close>, \<open>end\<close>, \<open>add\<close>, \<open>set_user\<close>,
  \<open>set_comment\<close>, \<open>add_meta\<close> and \<open>invalidate\<close> calls on a new manager the depth is not
  negative, and an \<open>end\<close> called at depth 0 raises \<open>RevisionManagementError\<close> and
  leaves the state (the depth with it) and the tables as they were: it neither
  decrements nor commits.
\<close>

theorem depth_never_negative:
  "case run e cs (clear, d0) of (s, d) \<Rightarrow>
     0 \<le> depth s \<and>
     (depth s = 0 \<longrightarrow> end_revision e s d = (Some RevisionManagementError, s, d))"
proof -
  have "0 \<le> depth (fst (run e cs (clear, d0)))"
    by (rule run_depth) (simp add: clear_def)
  then show ?thesis
    by (auto simp: end_revision_inactive split: prod.splits)
qed

theorem depth_never_negative_witness:
  "run example_env [Start, End, End, Add article] (clear, empty_database) = (clear, empty_database) \<and>
   end_revision example_env clear empty_database =
     (Some RevisionManagementError, clear, empty_database)"
proof -
  have r: "run example_env [Start, End, End, Add article] (clear, empty_database) =
             (clear, empty_database)"
    by (simp add: start_def end_revision_def assert_active_def is_active_def clear_def
          set_difference_def raised_def add_def Let_def)
  from depth_never_negative [of example_env "[Start, End, End, Add article]" empty_database]
  have "0 \<le> depth clear \<and>
        (depth clear = 0 \<longrightarrow>
           end_revision example_env clear empty_database =
             (Some RevisionManagementError, clear, empty_database))"
    unfolding r by simp
  then show ?thesis using r by (simp add: clear_def)
qed

section \<open>Properties of the stored versions and of the diff engine\<close>

subsection \<open>get_object_version\<close>

lemma foldl_dict_update_class: "dobj_class (foldl dict_update h rest) = dobj_class h"
  by (induction rest arbitrary: h) (simp_all add: dict_update_def)

lemma foldl_dict_update_m2m: "m2m_data (foldl dict_update h rest) = m2m_data h"
  by (induction rest arbitrary: h) (simp_all add: dict_update_def)

lemma sorted_key_last:
  "sorted (map f xs) \<Longrightarrow> x \<in> set xs \<Longrightarrow> f x \<le> f (last xs)"
proof (induction xs)
  case Nil
  then show ?case by simp
next
  case (Cons a xs)
  then show ?case by (cases xs) auto
qed

lemma sorted_key_head:
  "sorted (map f (a # xs)) \<Longrightarrow> x \<in> set (a # xs) \<Longrightarrow> f a \<le> f x"
  by auto

text \<open>
  Claim C8 says that the fragments of a composite entity are merged so that the
  more-derived fragment is applied last, onto a base built from the parent, and wins
  on a conflicting field name. The code does the opposite. With a parent fragment and
  a child fragment that both carry \<open>name\<close>, the reconstructed object is the child's
  (class 4) and its \<open>name\<close> is the parent's.
\<close>

theorem get_object_version_parent_overwrites_child:
  "map_sum id (\<lambda>h. (dobj_class h, object_dict h ''name''))
     (get_object_version example_orm composite_version) = Inr (4, Some (PStr ''parent''))"
  by (simp add: get_object_version_def example_orm_def composite_version_def parent_fragment_def
        child_fragment_def dict_update_def)

text \<open>
  Claim C8 as the code has it: the reconstruction succeeds on every payload with at
  least one fragment; the object returned is a fragment with the largest number of
  parents (it keeps that fragment's class and many-to-many data), and the other
  fragments are applied onto it in descending order of that number, so that a field
  of the fragment with strictly the fewest parents, applied last, has that fragment's
  value in the result.
\<close>

theorem get_object_version_least_derived_wins:
  assumes des: "deserialize orm (version_format v) (serialized_data v) = Inr objs"
      and mem: "d \<in> set objs"
      and least: "\<forall>d' \<in> set objs. d' \<noteq> d \<longrightarrow> n_parents d < n_parents d'"
      and key: "object_dict d k = Some x"
  shows "\<exists>h b. get_object_version orm v = Inr h \<and>
           b \<in> set objs \<and> (\<forall>d' \<in> set objs. n_parents d' \<le> n_parents b) \<and>
           dobj_class h = dobj_class b \<and> m2m_data h = m2m_data b \<and>
           object_dict h k = Some x"
proof -
  let ?f = "\<lambda>d. - int (n_parents d)"
  let ?ds = "sort_key ?f objs"
  have set_ds: "set ?ds = set objs" by simp
  have sorted_ds: "sorted (map ?f ?ds)" by simp
  from mem have "?ds \<noteq> []" by (metis empty_iff empty_set set_ds)
  then obtain b rest where ds: "?ds = b # rest" by (cases ?ds) auto
  let ?h = "foldl dict_update b rest"
  have res: "get_object_version orm v = Inr ?h"
    by (simp add: get_object_version_def des ds)
  have b_mem: "b \<in> set objs" using set_ds ds by (metis list.set_intros(1))
  have b_max: "\<forall>d' \<in> set objs. n_parents d' \<le> n_parents b"
  proof
    fix d' assume "d' \<in> set objs"
    then have "d' \<in> set (b # rest)" using set_ds ds by simp
    with sorted_ds ds have "?f b \<le> ?f d'" by (metis sorted_key_head)
    then show "n_parents d' \<le> n_parents b" by simp
  qed
  have last_d: "last ?ds = d"
  proof (rule ccontr)
    assume ne: "last ?ds \<noteq> d"
    have "last ?ds \<in> set objs" using \<open>?ds \<noteq> []\<close> set_ds last_in_set by blast
    with least ne have lt: "n_parents d < n_parents (last ?ds)" by blast
    from mem set_ds have "d \<in> set ?ds" by simp
    from sorted_key_last [OF sorted_ds this] have "?f d \<le> ?f (last ?ds)" .
    with lt show False by simp
  qed
  have "object_dict ?h k = Some x"
  proof (cases rest rule: rev_cases)
    case Nil
    with ds last_d have "b = d" by simp
    with Nil key show ?thesis by simp
  next
    case (snoc ys y)
    with ds last_d have "y = d" by simp
    with snoc key show ?thesis by (simp add: dict_update_def)
  qed
  with res b_mem b_max show ?thesis
    by (metis foldl_dict_update_class foldl_dict_update_m2m)
qed

theorem get_object_version_least_derived_wins_witness:
  "\<exists>h b. get_object_version example_orm composite_version = Inr h \<and>
         b \<in> set [parent_fragment, child_fragment] \<and>
         (\<forall>d' \<in> set [parent_fragment, child_fragment]. n_parents d' \<le> n_parents b) \<and>
         dobj_class h = dobj_class b \<and> m2m_data h = m2m_data b \<and>
         object_dict h ''name'' = Some (PStr ''parent'')"
proof -
  have des: "deserialize example_orm (version_format composite_version)
               (serialized_data composite_version) = Inr [parent_fragment, child_fragment]"
    by (simp add: example_orm_def composite_version_def)
  have mem: "parent_fragment \<in> set [parent_fragment, child_fragment]" by simp
  have least: "\<forall>d' \<in> set [parent_fragment, child_fragment].
                 d' \<noteq> parent_fragment \<longrightarrow> n_parents parent_fragment < n_parents d'"
    by (simp add: parent_fragment_def child_fragment_def)
  have key: "object_dict parent_fragment ''name'' = Some (PStr ''parent'')"
    by (simp add: parent_fragment_def)
  from get_object_version_least_derived_wins [OF des mem least key] show ?thesis .
qed

subsection \<open>diff_vers\<close>


lemma diff_field_name:
  "diff_field e orm d v1 o1 o2 name = Inr (Some (n, a, b)) \<Longrightarrow> n = name"
  by (auto simp: diff_field_def split: option.splits sum.splits if_splits prod.splits)

lemma diff_fields_set:
  "diff_fields e orm d v1 o1 o2 names acc = Inr res \<Longrightarrow>
   set res = set acc \<union> {entry. \<exists>name \<in> set names. diff_field e orm d v1 o1 o2 name = Inr (Some entry)}"
proof (induction names arbitrary: acc)
  case Nil
  then show ?case by simp
next
  case (Cons name names)
  show ?case
  proof (cases "diff_field e orm d v1 o1 o2 name")
    case (Inl err)
    with Cons.prems show ?thesis by simp
  next
    case (Inr r)
    show ?thesis
    proof (cases r)
      case None
      with Inr Cons.prems have "diff_fields e orm d v1 o1 o2 names acc = Inr res" by simp
      from Cons.IH [OF this] Inr None show ?thesis by auto
    next
      case (Some entry)
      with Inr Cons.prems have "diff_fields e orm d v1 o1 o2 names (acc @ [entry]) = Inr res" by simp
      from Cons.IH [OF this] Inr Some show ?thesis by auto
    qed
  qed
qed

lemma diff_fields_ok:
  "diff_fields e orm d v1 o1 o2 names acc = Inr res \<Longrightarrow> name \<in> set names \<Longrightarrow>
   \<exists>r. diff_field e orm d v1 o1 o2 name = Inr r"
proof (induction names arbitrary: acc)
  case Nil
  then show ?case by simp
next
  case (Cons a names)
  then show ?case
    by (cases "diff_field e orm d v1 o1 o2 a") (auto split: option.splits)
qed

lemma diff_field_reported:
  assumes "get_field orm (dobj_class o1) name = Some f" and "\<not> primary_key f"
      and "new_value orm o1 name f = Inr nv" and "old_value orm o2 name f = Inr ov"
      and "diff_field e orm d v1 o1 o2 name = Inr r"
  shows "(r \<noteq> None) \<longleftrightarrow>
         ((is_addition v1 \<or> is_deletion v1 \<or>
           (is_change v1 \<and> \<not> py_eq nv ov \<and> (py_truthy nv \<or> py_truthy ov))) \<and>
          \<not> same_second nv ov)"
  using assms
  by (auto simp: diff_field_def split: sum.splits if_splits prod.splits)

lemma same_second_iff:
  "same_second a b \<longleftrightarrow> (\<exists>s u1 u2. a = PDateTime s u1 \<and> b = PDateTime s u2)"
  by (cases a; cases b) auto

text \<open>
  Claim C6 says that on a \<open>CHANGE\<close> a field is reported exactly when the new and old
  values differ and one of them is not empty. Between the two versions of the article
  the title changed, the modification time moved within one second and \<open>views\<close> went
  from \<open>None\<close> to 0. The code reports the title and leaves the time out, as claimed;
  but it leaves \<open>views\<close> out although the value changed and 0 is a value: the test
  is Python's truth test, under which 0 and \<open>None\<close> are both false. (The entry for
  \<open>tags\<close> comes from the comparison of two \<open>QuerySet\<close>s by identity, which the
  statement after this one leaves aside.)
\<close>

theorem diff_vers_skips_none_to_zero:
  "diff_vers example_env example_orm empty_database new_version (Some old_version) =
     Inr [(''title'', PStr ''y'', PStr ''x''), (''tags'', PQuerySet 2 [7], PQuerySet 2 [7])] \<and>
   object_dict new_fragment ''views'' = Some (PInt 0) \<and>
   object_dict old_fragment ''views'' = Some PNone"
  by (simp add: diff_vers_def get_object_version_def example_orm_def new_version_def old_version_def
        new_fragment_def old_fragment_def previous_object_def get_registration_info_def example_env_def
        diff_field_def new_value_def old_value_def py_getattr_def py_getattr_default_def
        filter_m2m_def resolve_relation_def is_change_def is_addition_def is_deletion_def
        py_eq_def CHANGE_def ADDITION_def DELETION_def)

text \<open>
  Claim C6 as the code has it. Let \<open>diff_vers\<close> return a result, and let \<open>name\<close> be a
  registered field of the version's class that is no primary key, with new value
  \<open>nv\<close> and old value \<open>ov\<close> (\<open>None\<close> without a previous version), neither of them a
  manager or \<open>QuerySet\<close>. The field is reported if and only if the action is an
  addition or a deletion, or it is a change and \<open>nv != ov\<close> holds in Python and one
  of the two is true in Python (\<open>None\<close>, \<open>False\<close>, 0 and the empty string are
  false); except that, whatever the action, it is not reported when both are
  datetimes of the same second. Many-to-many fields, whose values are read as
  \<open>QuerySet\<close>s, are outside this statement.
\<close>

theorem diff_vers_reports_field:
  assumes res: "diff_vers e orm d v1 v2 = Inr result"
      and o1: "get_object_version orm v1 = Inr o1"
      and info: "registry e (dobj_class o1) = Some info"
      and name: "name \<in> set (reg_fields info)"
      and f: "get_field orm (dobj_class o1) name = Some f"
      and key: "\<not> primary_key f"
      and nv: "new_value orm o1 name f = Inr nv"
      and o2: "previous_object orm v2 = Inr o2"
      and ov: "old_value orm o2 name f = Inr ov"
      and nv_scalar: "\<not> is_manager_or_queryset nv"
      and ov_scalar: "\<not> is_manager_or_queryset ov"
  shows "(\<exists>nv' ov'. (name, nv', ov') \<in> set result) \<longleftrightarrow>
         ((is_addition v1 \<or> is_deletion v1 \<or>
           (is_change v1 \<and> \<not> py_eq nv ov \<and> (py_truthy nv \<or> py_truthy ov))) \<and>
          \<not> (\<exists>s u1 u2. nv = PDateTime s u1 \<and> ov = PDateTime s u2))"
proof -
  let ?o2 = o2
  from res o1 info o2 have fields: "diff_fields e orm d v1 o1 ?o2 (reg_fields info) [] = Inr result"
    by (simp add: diff_vers_def get_registration_info_def)
  from diff_fields_ok [OF fields name]
  obtain r where r: "diff_field e orm d v1 o1 ?o2 name = Inr r" by blast
  have "(\<exists>nv' ov'. (name, nv', ov') \<in> set result) \<longleftrightarrow> r \<noteq> None"
  proof
    assume "\<exists>nv' ov'. (name, nv', ov') \<in> set result"
    then obtain nv' ov' where "(name, nv', ov') \<in> set result" by blast
    with diff_fields_set [OF fields]
    obtain n where "n \<in> set (reg_fields info)"
      and n: "diff_field e orm d v1 o1 ?o2 n = Inr (Some (name, nv', ov'))" by auto
    from diff_field_name [OF n] have "n = name" by simp
    with n r show "r \<noteq> None" by simp
  next
    assume "r \<noteq> None"
    then obtain entry where "r = Some entry" by auto
    with r name diff_fields_set [OF fields] have "entry \<in> set result" by auto
    moreover obtain n a b where "entry = (n, a, b)" by (cases entry) auto
    moreover from this r \<open>r = Some entry\<close> have "n = name" by (auto dest: diff_field_name)
    ultimately show "\<exists>nv' ov'. (name, nv', ov') \<in> set result" by auto
  qed
  with diff_field_reported [OF f key nv ov r] show ?thesis
    by (simp add: same_second_iff)
qed


theorem diff_vers_reports_field_witness:
  "((\<exists>nv' ov'. (''title'', nv', ov') \<in>
        set [(''title'', PStr ''y'', PStr ''x''), (''tags'', PQuerySet 2 [7], PQuerySet 2 [7])]) \<longleftrightarrow>
    ((is_addition new_version \<or> is_deletion new_version \<or>
      (is_change new_version \<and> \<not> py_eq (PStr ''y'') (PStr ''x'') \<and>
       (py_truthy (PStr ''y'') \<or> py_truthy (PStr ''x'')))) \<and>
     \<not> (\<exists>s u1 u2. PStr ''y'' = PDateTime s u1 \<and> PStr ''x'' = PDateTime s u2))) \<and>
   ((\<exists>nv' ov'. (''views'', nv', ov') \<in>
        set [(''title'', PStr ''y'', PStr ''x''), (''tags'', PQuerySet 2 [7], PQuerySet 2 [7])]) \<longleftrightarrow>
    ((is_addition new_version \<or> is_deletion new_version \<or>
      (is_change new_version \<and> \<not> py_eq (PInt 0) PNone \<and>
       (py_truthy (PInt 0) \<or> py_truthy PNone))) \<and>
     \<not> (\<exists>s u1 u2. PInt 0 = PDateTime s u1 \<and> PNone = PDateTime s u2)))"
proof -
  let ?info = "\<lparr>reg_fields = [''id'', ''title'', ''modified'', ''views'', ''tags''], file_fields = [],
                follow = [''author''], format = ''python''\<rparr>"
  let ?f = "\<lparr>attname = ''title'', primary_key = False, choices = [], rel_to = None\<rparr>"
  let ?g = "\<lparr>attname = ''views'', primary_key = False, choices = [], rel_to = None\<rparr>"
  have res: "diff_vers example_env example_orm empty_database new_version (Some old_version) =
     Inr [(''title'', PStr ''y'', PStr ''x''), (''tags'', PQuerySet 2 [7], PQuerySet 2 [7])]"
    by (simp add: diff_vers_def get_object_version_def example_orm_def new_version_def old_version_def
        new_fragment_def old_fragment_def previous_object_def get_registration_info_def example_env_def
        diff_field_def new_value_def old_value_def py_getattr_def py_getattr_default_def
        filter_m2m_def resolve_relation_def is_change_def is_addition_def is_deletion_def
        py_eq_def CHANGE_def ADDITION_def DELETION_def)
  have o1: "get_object_version example_orm new_version = Inr new_fragment"
    by (simp add: get_object_version_def example_orm_def new_version_def)
  have info: "registry example_env (dobj_class new_fragment) = Some ?info"
    by (simp add: example_env_def new_fragment_def)
  have o2: "previous_object example_orm (Some old_version) = Inr (Some old_fragment)"
    by (simp add: previous_object_def get_object_version_def example_orm_def old_version_def)
  have name: "''title'' \<in> set (reg_fields ?info)" by simp
  have f: "get_field example_orm (dobj_class new_fragment) ''title'' = Some ?f"
    by (simp add: example_orm_def new_fragment_def)
  have key: "\<not> primary_key ?f" by simp
  have nv: "new_value example_orm new_fragment ''title'' ?f = Inr (PStr ''y'')"
    by (simp add: new_value_def py_getattr_def new_fragment_def filter_m2m_def)
  have ov: "old_value example_orm (Some old_fragment) ''title'' ?f = Inr (PStr ''x'')"
    by (simp add: old_value_def py_getattr_default_def py_getattr_def old_fragment_def
          filter_m2m_def)
  have nvs: "\<not> is_manager_or_queryset (PStr ''y'')" by simp
  have ovs: "\<not> is_manager_or_queryset (PStr ''x'')" by simp
  have name': "''views'' \<in> set (reg_fields ?info)" by simp
  have g: "get_field example_orm (dobj_class new_fragment) ''views'' = Some ?g"
    by (simp add: example_orm_def new_fragment_def)
  have key': "\<not> primary_key ?g" by simp
  have nv': "new_value example_orm new_fragment ''views'' ?g = Inr (PInt 0)"
    by (simp add: new_value_def py_getattr_def new_fragment_def filter_m2m_def)
  have ov': "old_value example_orm (Some old_fragment) ''views'' ?g = Inr PNone"
    by (simp add: old_value_def py_getattr_default_def py_getattr_def old_fragment_def
          filter_m2m_def)
  have nvs': "\<not> is_manager_or_queryset (PInt 0)" by simp
  have ovs': "\<not> is_manager_or_queryset PNone" by simp
  from diff_vers_reports_field [OF res o1 info name f key nv o2 ov nvs ovs]
       diff_vers_reports_field [OF res o1 info name' g key' nv' o2 ov' nvs' ovs']
  show ?thesis by (rule conjI)
qed

subsection \<open>VersionManager.diff\<close>


lemma previous_version_foreign:
  "is_change v \<Longrightarrow> object_id v \<noteq> object_id nxt \<or> content_type v \<noteq> content_type nxt \<Longrightarrow>
   previous_version v (nxt # post) = (None, PStr ''Add or Change'')"
  by (simp add: previous_version_def)

lemma diff_rows_Cons:
  "diff_rows e orm d (v # rest) revs =
     (case diff_vers e orm d v (fst (previous_version v rest)) of
        Inl err \<Rightarrow> Inl err
      | Inr fs \<Rightarrow>
          diff_rows e orm d rest
            (revs(revision_id v \<mapsto>
               append_change (rdiff_for revs (revision_id v))
                 \<lparr>vd_version = v, vd_type = snd (previous_version v rest), vd_fields = fs\<rparr>)))"
  by (cases "previous_version v rest"; cases "diff_vers e orm d v (fst (previous_version v rest))")
     (simp_all add: Let_def)

lemma append_change_set:
  "set (rd_changes (append_change entry x)) =
     (if vd_fields x \<noteq> [] then insert x (set (rd_changes entry)) else set (rd_changes entry))"
  by (simp add: append_change_def)

lemma rdiff_for_set:
  "set (rd_changes (rdiff_for revs rid)) =
     (case revs rid of None \<Rightarrow> {} | Some r \<Rightarrow> set (rd_changes r))"
  by (simp add: rdiff_for_def split: option.splits)

lemma diff_rows_ConsE:
  assumes "diff_rows e orm d (v # rest) revs = Inr out"
  shows "\<exists>fs. diff_vers e orm d v (fst (previous_version v rest)) = Inr fs \<and>
              diff_rows e orm d rest
                (revs(revision_id v \<mapsto>
                   append_change (rdiff_for revs (revision_id v))
                     \<lparr>vd_version = v, vd_type = snd (previous_version v rest), vd_fields = fs\<rparr>))
              = Inr out"
proof (cases "diff_vers e orm d v (fst (previous_version v rest))")
  case (Inl err)
  with assms show ?thesis by (simp add: diff_rows_Cons del: diff_rows.simps)
next
  case (Inr fs)
  with assms show ?thesis by (simp add: diff_rows_Cons del: diff_rows.simps)
qed

lemma diff_rows_keeps:
  "diff_rows e orm d vs revs = Inr out \<Longrightarrow> revs rid = Some r0 \<Longrightarrow> x \<in> set (rd_changes r0) \<Longrightarrow>
   \<exists>r. out rid = Some r \<and> x \<in> set (rd_changes r)"
proof (induction vs arbitrary: revs r0)
  case Nil
  then show ?case by simp
next
  case (Cons v rest)
  from diff_rows_ConsE [OF Cons.prems(1)] obtain fs where
    step: "diff_rows e orm d rest
            (revs(revision_id v \<mapsto>
               append_change (rdiff_for revs (revision_id v))
                 \<lparr>vd_version = v, vd_type = snd (previous_version v rest), vd_fields = fs\<rparr>)) = Inr out"
    by blast
  let ?revs' = "revs(revision_id v \<mapsto>
               append_change (rdiff_for revs (revision_id v))
                 \<lparr>vd_version = v, vd_type = snd (previous_version v rest), vd_fields = fs\<rparr>)"
  from Cons.prems(2,3) have "\<exists>r1. ?revs' rid = Some r1 \<and> x \<in> set (rd_changes r1)"
    by (cases "rid = revision_id v") (simp_all add: append_change_set rdiff_for_set)
  then obtain r1 where "?revs' rid = Some r1" and "x \<in> set (rd_changes r1)" by blast
  from Cons.IH [OF step this] show ?case .
qed

lemma diff_rows_adds:
  "diff_rows e orm d (pre @ v # rest) revs = Inr out \<Longrightarrow>
   \<exists>fs. diff_vers e orm d v (fst (previous_version v rest)) = Inr fs \<and>
        (fs \<noteq> [] \<longrightarrow>
           (\<exists>r. out (revision_id v) = Some r \<and>
                \<lparr>vd_version = v, vd_type = snd (previous_version v rest), vd_fields = fs\<rparr>
                  \<in> set (rd_changes r)))"
proof (induction pre arbitrary: revs)
  case Nil
  then have "diff_rows e orm d (v # rest) revs = Inr out" by simp
  from diff_rows_ConsE [OF this] obtain fs where
    fs: "diff_vers e orm d v (fst (previous_version v rest)) = Inr fs"
    and step: "diff_rows e orm d rest
            (revs(revision_id v \<mapsto>
               append_change (rdiff_for revs (revision_id v))
                 \<lparr>vd_version = v, vd_type = snd (previous_version v rest), vd_fields = fs\<rparr>)) = Inr out"
    by blast
  let ?x = "\<lparr>vd_version = v, vd_type = snd (previous_version v rest), vd_fields = fs\<rparr>"
  let ?revs' = "revs(revision_id v \<mapsto> append_change (rdiff_for revs (revision_id v)) ?x)"
  have "\<exists>r. out (revision_id v) = Some r \<and> ?x \<in> set (rd_changes r)" if "fs \<noteq> []"
  proof -
    from that have "?revs' (revision_id v) = Some (append_change (rdiff_for revs (revision_id v)) ?x)"
      and "?x \<in> set (rd_changes (append_change (rdiff_for revs (revision_id v)) ?x))"
      by (simp_all add: append_change_set)
    from diff_rows_keeps [OF step this] show ?thesis .
  qed
  with fs show ?case by blast
next
  case (Cons a pre)
  then have "diff_rows e orm d (a # (pre @ v # rest)) revs = Inr out" by simp
  from diff_rows_ConsE [OF this] obtain revs' where
    "diff_rows e orm d (pre @ v # rest) revs' = Inr out" by blast
  from Cons.IH [OF this] show ?case .
qed

lemma diff_rows_entries:
  "diff_rows e orm d vs revs = Inr out \<Longrightarrow> out rid = Some r \<Longrightarrow> x \<in> set (rd_changes r) \<Longrightarrow>
   (\<exists>r0. revs rid = Some r0 \<and> x \<in> set (rd_changes r0)) \<or>
   (\<exists>pre v rest fs. vs = pre @ v # rest \<and>
        diff_vers e orm d v (fst (previous_version v rest)) = Inr fs \<and>
        x = \<lparr>vd_version = v, vd_type = snd (previous_version v rest), vd_fields = fs\<rparr>)"
proof (induction vs arbitrary: revs)
  case Nil
  then show ?case by simp
next
  case (Cons v rest)
  from diff_rows_ConsE [OF Cons.prems(1)] obtain fs where
    fs: "diff_vers e orm d v (fst (previous_version v rest)) = Inr fs"
    and step: "diff_rows e orm d rest
            (revs(revision_id v \<mapsto>
               append_change (rdiff_for revs (revision_id v))
                 \<lparr>vd_version = v, vd_type = snd (previous_version v rest), vd_fields = fs\<rparr>)) = Inr out"
    by blast
  let ?x = "\<lparr>vd_version = v, vd_type = snd (previous_version v rest), vd_fields = fs\<rparr>"
  let ?revs' = "revs(revision_id v \<mapsto> append_change (rdiff_for revs (revision_id v)) ?x)"
  from Cons.IH [OF step Cons.prems(2,3)]
  consider (old) r1 where "?revs' rid = Some r1" "x \<in> set (rd_changes r1)"
    | (new) pre w rest' gs where "rest = pre @ w # rest'"
        "diff_vers e orm d w (fst (previous_version w rest')) = Inr gs"
        "x = \<lparr>vd_version = w, vd_type = snd (previous_version w rest'), vd_fields = gs\<rparr>"
    by blast
  then show ?case
  proof cases
    case old
    show ?thesis
    proof (cases "rid = revision_id v")
      case False
      with old show ?thesis by simp
    next
      case True
      with old have mem: "x \<in> set (rd_changes (append_change (rdiff_for revs (revision_id v)) ?x))"
        by simp
      have "(\<exists>r0. revs rid = Some r0 \<and> x \<in> set (rd_changes r0)) \<or> x = ?x"
      proof (cases "revs (revision_id v)")
        case None
        with mem show ?thesis by (simp add: append_change_set rdiff_for_set split: if_splits)
      next
        case (Some r0)
        with mem True show ?thesis by (auto simp: append_change_set rdiff_for_set split: if_splits)
      qed
      then show ?thesis
      proof
        assume "\<exists>r0. revs rid = Some r0 \<and> x \<in> set (rd_changes r0)"
        then show ?thesis by blast
      next
        assume "x = ?x"
        with fs have "v # rest = [] @ v # rest \<and>
            diff_vers e orm d v (fst (previous_version v rest)) = Inr fs \<and> x = ?x"
          by simp
        then show ?thesis by blast
      qed
    qed
  next
    case new
    then have "v # rest = (v # pre) @ w # rest' \<and>
        diff_vers e orm d w (fst (previous_version w rest')) = Inr gs \<and>
        x = \<lparr>vd_version = w, vd_type = snd (previous_version w rest'), vd_fields = gs\<rparr>"
      by simp
    then show ?thesis by blast
  qed
qed

lemma distinct_split_unique:
  assumes "distinct (pre @ v # rest)" and "pre @ v # rest = pre' @ v # rest'"
  shows "rest' = rest"
proof -
  from assms(1) have "v \<notin> set pre" and "v \<notin> set rest" by simp_all
  then have "(pre @ v # rest = pre' @ v # rest') = (pre = pre' \<and> rest = rest')"
    by (rule append_Cons_eq_iff)
  with assms(2) show ?thesis by simp
qed

text \<open>
  Claim C7: let \<open>diff\<close> return a result for a list of distinct rows in which a row \<open>v\<close>
  flagged \<open>CHANGE\<close> is followed by a row of another object (another object id or
  content type). Then \<open>v\<close> is compared with no previous version, its entry is typed
  \<open>Add or Change\<close> and is in the changes of \<open>v\<close>'s revision whenever its list of fields
  is not empty, and the result holds no other entry for \<open>v\<close>.
\<close>

theorem diff_reclassifies_foreign_neighbour:
  assumes ok: "diff e orm d (pre @ v # nxt # post) = Inr revs"
      and dist: "distinct (pre @ v # nxt # post)"
      and chg: "is_change v"
      and foreign: "object_id v \<noteq> object_id nxt \<or> content_type v \<noteq> content_type nxt"
  shows "\<exists>fs. diff_vers e orm d v None = Inr fs \<and>
           (fs \<noteq> [] \<longrightarrow>
              (\<exists>r. revs (revision_id v) = Some r \<and>
                   \<lparr>vd_version = v, vd_type = PStr ''Add or Change'', vd_fields = fs\<rparr>
                     \<in> set (rd_changes r))) \<and>
           (\<forall>rid r x. revs rid = Some r \<longrightarrow> x \<in> set (rd_changes r) \<longrightarrow> vd_version x = v \<longrightarrow>
              x = \<lparr>vd_version = v, vd_type = PStr ''Add or Change'', vd_fields = fs\<rparr>)"
proof -
  have prev: "previous_version v (nxt # post) = (None, PStr ''Add or Change'')"
    using chg foreign by (rule previous_version_foreign)
  from ok have rows: "diff_rows e orm d (pre @ v # nxt # post) Map.empty = Inr revs"
    by (simp add: diff_def)
  from diff_rows_adds [OF rows] obtain fs where
    fs0: "diff_vers e orm d v (fst (previous_version v (nxt # post))) = Inr fs"
    and added0: "fs \<noteq> [] \<longrightarrow>
           (\<exists>r. revs (revision_id v) = Some r \<and>
                \<lparr>vd_version = v, vd_type = snd (previous_version v (nxt # post)), vd_fields = fs\<rparr>
                  \<in> set (rd_changes r))"
    by blast
  from fs0 have fs: "diff_vers e orm d v None = Inr fs" by (simp add: prev)
  from added0 have added: "fs \<noteq> [] \<longrightarrow>
           (\<exists>r. revs (revision_id v) = Some r \<and>
                \<lparr>vd_version = v, vd_type = PStr ''Add or Change'', vd_fields = fs\<rparr> \<in> set (rd_changes r))"
    by (simp add: prev)
  have only: "x = \<lparr>vd_version = v, vd_type = PStr ''Add or Change'', vd_fields = fs\<rparr>"
    if r: "revs rid = Some r" and x: "x \<in> set (rd_changes r)" and xv: "vd_version x = v" for rid r x
  proof -
    from diff_rows_entries [OF rows r x]
    have "\<exists>pre' w rest' gs. pre @ v # nxt # post = pre' @ w # rest' \<and>
        diff_vers e orm d w (fst (previous_version w rest')) = Inr gs \<and>
        x = \<lparr>vd_version = w, vd_type = snd (previous_version w rest'), vd_fields = gs\<rparr>"
      by simp
    then obtain pre' w rest' gs where split: "pre @ v # nxt # post = pre' @ w # rest'"
      and gs: "diff_vers e orm d w (fst (previous_version w rest')) = Inr gs"
      and xeq: "x = \<lparr>vd_version = w, vd_type = snd (previous_version w rest'), vd_fields = gs\<rparr>"
      by blast
    from xeq xv have wv: "w = v" by simp
    from split wv have "pre @ v # (nxt # post) = pre' @ v # rest'" by simp
    from distinct_split_unique [OF dist this] have rest': "rest' = nxt # post" .
    from gs wv rest' prev fs have "gs = fs" by simp
    with xeq wv rest' prev show ?thesis by simp
  qed
  have all_only: "\<forall>rid r x. revs rid = Some r \<longrightarrow> x \<in> set (rd_changes r) \<longrightarrow> vd_version x = v \<longrightarrow>
              x = \<lparr>vd_version = v, vd_type = PStr ''Add or Change'', vd_fields = fs\<rparr>"
  proof (intro allI impI)
    fix rid r x
    assume "revs rid = Some r" and "x \<in> set (rd_changes r)" and "vd_version x = v"
    then show "x = \<lparr>vd_version = v, vd_type = PStr ''Add or Change'', vd_fields = fs\<rparr>"
      by (rule only)
  qed
  let ?P = "\<lambda>fs. diff_vers e orm d v None = Inr fs \<and>
           (fs \<noteq> [] \<longrightarrow>
              (\<exists>r. revs (revision_id v) = Some r \<and>
                   \<lparr>vd_version = v, vd_type = PStr ''Add or Change'', vd_fields = fs\<rparr>
                     \<in> set (rd_changes r))) \<and>
           (\<forall>rid r x. revs rid = Some r \<longrightarrow> x \<in> set (rd_changes r) \<longrightarrow> vd_version x = v \<longrightarrow>
              x = \<lparr>vd_version = v, vd_type = PStr ''Add or Change'', vd_fields = fs\<rparr>)"
  from fs added all_only have "?P fs" by (intro conjI)
  then show ?thesis by (rule exI [where P = ?P and x = fs])
qed


theorem diff_reclassifies_foreign_neighbour_witness:
  "diff example_env example_orm empty_database [new_version, other_version] = Inr example_history \<and>
   (\<exists>fs. diff_vers example_env example_orm empty_database new_version None = Inr fs \<and>
      (fs \<noteq> [] \<longrightarrow>
         (\<exists>r. example_history (revision_id new_version) = Some r \<and>
              \<lparr>vd_version = new_version, vd_type = PStr ''Add or Change'', vd_fields = fs\<rparr>
                \<in> set (rd_changes r))) \<and>
      (\<forall>rid r x. example_history rid = Some r \<longrightarrow> x \<in> set (rd_changes r) \<longrightarrow>
         vd_version x = new_version \<longrightarrow>
         x = \<lparr>vd_version = new_version, vd_type = PStr ''Add or Change'', vd_fields = fs\<rparr>))"
proof -
  have first: "diff_vers example_env example_orm empty_database new_version None =
      Inr [(''title'', PStr ''y'', PNone), (''modified'', PDateTime 100 900, PNone),
           (''tags'', PQuerySet 2 [7], PNone)]"
    by (simp add: diff_vers_def get_object_version_def example_orm_def new_version_def
        new_fragment_def previous_object_def get_registration_info_def example_env_def
        diff_field_def new_value_def old_value_def py_getattr_def
        filter_m2m_def resolve_relation_def is_change_def is_addition_def is_deletion_def
        py_eq_def CHANGE_def ADDITION_def DELETION_def)
  have second: "diff_vers example_env example_orm empty_database other_version None =
      Inr [(''title'', PStr ''x'', PNone), (''modified'', PDateTime 100 5, PNone),
           (''views'', PNone, PNone), (''tags'', PQuerySet 2 [7], PNone)]"
    by (simp add: diff_vers_def get_object_version_def example_orm_def other_version_def
        old_fragment_def previous_object_def get_registration_info_def example_env_def
        diff_field_def new_value_def old_value_def py_getattr_def
        filter_m2m_def resolve_relation_def is_change_def is_addition_def is_deletion_def
        py_eq_def CHANGE_def ADDITION_def DELETION_def)
  have chg: "is_change new_version"
    by (simp add: is_change_def new_version_def)
  have foreign: "object_id new_version \<noteq> object_id other_version \<or>
                 content_type new_version \<noteq> content_type other_version"
    by (simp add: new_version_def other_version_def)
  have p1: "previous_version new_version [other_version] = (None, PStr ''Add or Change'')"
    using chg foreign by (rule previous_version_foreign)
  have p2: "previous_version other_version [] = (None, PStr ''Add'')"
    by (simp add: previous_version_def is_change_def get_action_flag_display_def
          other_version_def ADDITION_def CHANGE_def)
  have rid1: "revision_id new_version = 2" by (simp add: new_version_def)
  have rid2: "revision_id other_version = 2" by (simp add: other_version_def)
  have ok: "diff example_env example_orm empty_database ([] @ new_version # other_version # []) =
              Inr example_history"
    by (simp add: diff_def p1 p2 first second rid1 rid2 rdiff_for_def append_change_def
          example_history_def)
  have dist: "distinct ([] @ new_version # other_version # [])"
    by (simp add: new_version_def other_version_def)
  from diff_reclassifies_foreign_neighbour [OF ok dist chg foreign] ok show ?thesis by simp
qed

end
